theory Spec2Isabelle
  imports Complex_Main
begin

section \<open>JavaScript values used by server.js\<close>

text \<open>
  A JavaScript number is NaN, an infinity or a finite value.  Finite values are kept as
  rationals: every finite double is one, and the server only compares them and takes
  minima and maxima, which are exact.  Negative zero is identified with zero (both are
  falsy and compare equal).
\<close>

datatype jsnum = NaN | Fin rat | PosInf | NegInf

datatype jsval =
    JUndefined
  | JNull
  | JBool bool
  | JNum jsnum
  | JStr string
  | JArr "jsval list"
  | JObj "(string \<times> jsval) list"

text \<open>
  The values that are thrown: a \<open>TypeError\<close> with its message, a \<open>RangeError\<close> of
  Node with its code and message, and any other value, given by its \<open>String\<close>.
  \<open>to_String e\<close> is \<open>String(e)\<close>.
\<close>

datatype js_error = TypeError string | RangeError string string | OtherError string

fun to_String :: "js_error \<Rightarrow> string" where
  "to_String (TypeError m) = ''TypeError: '' @ m"
| "to_String (RangeError code m) = ''RangeError ['' @ code @ '']: '' @ m"
| "to_String (OtherError str) = str"

text \<open>Truthiness of a number (\<open>!x\<close> is its negation): NaN and zero are falsy.\<close>

fun num_truthy :: "jsnum \<Rightarrow> bool" where
  "num_truthy NaN = False"
| "num_truthy (Fin r) = (r \<noteq> 0)"
| "num_truthy PosInf = True"
| "num_truthy NegInf = True"

fun truthy :: "jsval \<Rightarrow> bool" where
  "truthy JUndefined = False"
| "truthy JNull = False"
| "truthy (JBool b) = b"
| "truthy (JNum n) = num_truthy n"
| "truthy (JStr s) = (s \<noteq> [])"
| "truthy (JArr xs) = True"
| "truthy (JObj kvs) = True"

text \<open>The relational operators \<open><\<close> and \<open>>=\<close>: every comparison with NaN is false.\<close>

fun js_lt :: "jsnum \<Rightarrow> jsnum \<Rightarrow> bool" where
  "js_lt NaN y = False"
| "js_lt x NaN = False"
| "js_lt (Fin a) (Fin b) = (a < b)"
| "js_lt (Fin a) PosInf = True"
| "js_lt (Fin a) NegInf = False"
| "js_lt PosInf y = False"
| "js_lt NegInf (Fin b) = True"
| "js_lt NegInf PosInf = True"
| "js_lt NegInf NegInf = False"

fun js_ge :: "jsnum \<Rightarrow> jsnum \<Rightarrow> bool" where
  "js_ge NaN y = False"
| "js_ge x NaN = False"
| "js_ge x y = (\<not> js_lt x y)"

text \<open>\<open>Math.min\<close> and \<open>Math.max\<close> of two numbers: NaN if either argument is NaN.\<close>

fun math_min :: "jsnum \<Rightarrow> jsnum \<Rightarrow> jsnum" where
  "math_min NaN y = NaN"
| "math_min x NaN = NaN"
| "math_min x y = (if js_lt y x then y else x)"

fun math_max :: "jsnum \<Rightarrow> jsnum \<Rightarrow> jsnum" where
  "math_max NaN y = NaN"
| "math_max x NaN = NaN"
| "math_max x y = (if js_lt x y then y else x)"

text \<open>\<open>x || d\<close> on numbers.\<close>

definition num_or :: "jsnum \<Rightarrow> jsnum \<Rightarrow> jsnum" where
  "num_or x d = (if num_truthy x then x else d)"

text \<open>\<open>Number.isInteger(v)\<close>: \<open>v\<close> is of type number, finite, and has no fraction.\<close>

definition rat_is_int :: "rat \<Rightarrow> bool" where
  "rat_is_int r = (rat_of_int \<lfloor>r\<rfloor> = r)"

fun isInteger :: "jsval \<Rightarrow> bool" where
  "isInteger (JNum (Fin r)) = rat_is_int r"
| "isInteger v = False"

text \<open>The mathematical value of a number that passed \<open>Number.isInteger\<close>.\<close>

fun int_value :: "jsval \<Rightarrow> int" where
  "int_value (JNum (Fin r)) = \<lfloor>r\<rfloor>"
| "int_value v = 0"

section \<open>Strings\<close>

text \<open>
  Strings are lists of 8-bit characters; the server only looks for the ASCII characters
  \<open>/\<close>, \<open>:\<close> and the decimal digits.
\<close>

definition is_digit :: "char \<Rightarrow> bool" where
  "is_digit c = (c \<in> set ''0123456789'')"

definition digit_value :: "char \<Rightarrow> nat" where
  "digit_value c = of_char c - 48"

text \<open>\<open>s.includes("/")\<close>.\<close>

definition includes_slash :: "string \<Rightarrow> bool" where
  "includes_slash s = (CHR ''/'' \<in> set s)"

text \<open>\<open>s.split(c)\<close> for a one-character separator: always at least one part.\<close>

fun split_on :: "char \<Rightarrow> string \<Rightarrow> string list" where
  "split_on c [] = [[]]"
| "split_on c (x # xs) =
     (if x = c then [] # split_on c xs
      else (case split_on c xs of
              [] \<Rightarrow> [[x]]
            | p # ps \<Rightarrow> (x # p) # ps))"

text \<open>
  \<open>host.replace(/:\d+$/, "")\<close>: the pattern matches a colon followed by one or more
  decimal digits that run to the end of the string.  There is at most one such match, so
  the string loses that suffix or stays as it is.
\<close>

definition strip_port :: "string \<Rightarrow> string" where
  "strip_port s =
     (let r = rev s;
          ds = takeWhile is_digit r;
          rest = dropWhile is_digit r
      in (case rest of
            [] \<Rightarrow> s
          | c # front \<Rightarrow> if ds \<noteq> [] \<and> c = CHR '':'' then rev front else s))"

text \<open>
  \<open>parseInt(s, 10)\<close>: leading white space is skipped, one sign is read, then the longest
  run of decimal digits; NaN if there is no digit.  (The value is exact here; JavaScript
  rounds it to a double above \<open>2^53\<close>.)
\<close>

definition is_space :: "char \<Rightarrow> bool" where
  "is_space c = (of_char c \<in> {9, 10, 11, 12, 13, 32, 160 :: nat})"

definition digits_value :: "string \<Rightarrow> nat" where
  "digits_value ds = foldl (\<lambda>acc c. 10 * acc + digit_value c) 0 ds"

definition parseInt10 :: "string \<Rightarrow> jsnum" where
  "parseInt10 s =
     (let t = dropWhile is_space s;
          neg = (t \<noteq> [] \<and> hd t = CHR ''-'');
          u = (if t \<noteq> [] \<and> (hd t = CHR ''-'' \<or> hd t = CHR ''+'') then tl t else t);
          ds = takeWhile is_digit u
      in if ds = [] then NaN
         else Fin (if neg then - of_nat (digits_value ds) else of_nat (digits_value ds)))"

section \<open>The address classifier\<close>

text \<open>
  The package \<open>ipaddr.js\<close> is imported by the server and is not part of it.  Its three
  entry points that the server calls are parameters of the model: \<open>ipaddr.isValid\<close>,
  \<open>ipaddr.parse\<close> (which throws on a string it cannot parse: \<open>None\<close>) and the method
  \<open>match\<close> of a parsed address (which throws when the two addresses are of different
  kinds: \<open>None\<close>).
\<close>

record 'a ipaddr_js =
  ip_isValid :: "string \<Rightarrow> bool"
  ip_parse :: "string \<Rightarrow> 'a option"
  ip_match :: "'a \<Rightarrow> 'a \<Rightarrow> jsnum \<Rightarrow> bool option"

text \<open>
  \<open>cidrContains(cidr, ipStr)\<close>: everything runs inside \<open>try\<close>, and every exception
  becomes \<open>false\<close>.  A string that includes a slash splits into at least two parts, so
  the last case of the list pattern is never taken.
\<close>

definition cidrContains :: "'a ipaddr_js \<Rightarrow> string \<Rightarrow> string \<Rightarrow> bool" where
  "cidrContains lib cidr ipStr =
     (if \<not> includes_slash cidr then False
      else (case split_on (CHR ''/'') cidr of
              netStr # lenStr # parts \<Rightarrow>
                (let len = parseInt10 lenStr in
                 case ip_parse lib ipStr of
                   None \<Rightarrow> False
                 | Some ip \<Rightarrow>
                     (case ip_parse lib netStr of
                        None \<Rightarrow> False
                      | Some net \<Rightarrow>
                          (case ip_match lib ip net len of
                             None \<Rightarrow> False
                           | Some b \<Rightarrow> b)))
            | other \<Rightarrow> False))"

section \<open>The authorizer\<close>

text \<open>
  The body of the loop over \<open>ALLOWLIST\<close> when the host is an IP literal
  (lines 53 to 59): a rule with a slash is a CIDR rule, a rule that is a valid IP is
  compared with the stripped host, and any other rule is compared with the stripped
  host as well.
\<close>

definition ip_rule_allows :: "'a ipaddr_js \<Rightarrow> string \<Rightarrow> string \<Rightarrow> bool" where
  "ip_rule_allows lib trimmed rule =
     (if includes_slash rule then cidrContains lib rule trimmed
      else if ip_isValid lib rule then trimmed = rule
      else trimmed = rule)"

text \<open>
  The body of the inner loop for one resolved address (lines 68 to 74): CIDR and
  exact-IP rules look at the address, any other rule is compared with the stripped host.
\<close>

definition dns_rule_allows :: "'a ipaddr_js \<Rightarrow> string \<Rightarrow> string \<Rightarrow> string \<Rightarrow> bool" where
  "dns_rule_allows lib trimmed addr rule =
     (if includes_slash rule then cidrContains lib rule addr
      else if ip_isValid lib rule then addr = rule
      else trimmed = rule)"

text \<open>
  \<open>hostAllowedAsync(host)\<close>.  The allowlist and \<open>dns.lookup\<close> are parameters;
  \<open>dns_lookup name = None\<close> is a lookup that rejects, \<open>Some addrs\<close> one that resolves to
  the addresses \<open>addrs\<close>.  The result is the value the promise settles with (\<open>Inl\<close>: it
  rejects) and the list of names that were looked up.  A host that is truthy and not a
  string has no method \<open>replace\<close>: the call on line 50 throws.
\<close>

definition hostAllowedAsync ::
  "'a ipaddr_js \<Rightarrow> string list \<Rightarrow> (string \<Rightarrow> string list option) \<Rightarrow> jsval
     \<Rightarrow> (js_error + bool) \<times> string list" where
  "hostAllowedAsync lib ALLOWLIST dns_lookup host =
     (if \<not> truthy host then (Inr False, [])
      else (case host of
              JStr h \<Rightarrow>
                (let trimmed = strip_port h in
                 if ip_isValid lib trimmed
                 then (Inr (list_ex (ip_rule_allows lib trimmed) ALLOWLIST), [])
                 else (case dns_lookup trimmed of
                         None \<Rightarrow> (Inr False, [trimmed])
                       | Some addresses \<Rightarrow>
                           (Inr (list_ex (\<lambda>addr. list_ex (dns_rule_allows lib trimmed addr) ALLOWLIST)
                                   addresses),
                            [trimmed])))
            | other \<Rightarrow> (Inl (TypeError ''host.replace is not a function''), [])))"

section \<open>The port probe\<close>

text \<open>
  The value the promise of \<open>checkTcpPort\<close> resolves with: \<open>{host, port, ...result}\<close>,
  where \<open>result\<close> holds \<open>status\<close> and, for the two error cases, \<open>error\<close>.
\<close>

record probe_result =
  pr_host :: jsval
  pr_port :: jsnum
  pr_status :: string
  pr_error :: "string option"

text \<open>
  The argument of the socket's \<open>error\<close> event.  \<open>ErrObj code str\<close> is a truthy value
  whose property \<open>code\<close> is the string \<open>code\<close> (\<open>None\<close>: it has none) and which
  \<open>String\<close> renders as \<open>str\<close>; \<open>FalsyErr str\<close> is a falsy value rendered as \<open>str\<close>.
\<close>

datatype sock_error = ErrObj "string option" string | FalsyErr string

datatype sock_event = Connect | TimeoutEv | ErrorEv sock_error

text \<open>The object each of the three listeners hands to \<open>onDone\<close> (lines 96 to 104).\<close>

fun listener :: "sock_event \<Rightarrow> string \<times> string option" where
  "listener Connect = (''open'', None)"
| "listener TimeoutEv = (''timeout'', None)"
| "listener (ErrorEv (ErrObj code str)) =
     (if code = Some ''ECONNREFUSED'' then (''closed'', code)
      else (''error'',
            Some (case code of
                    None \<Rightarrow> str
                  | Some c \<Rightarrow> if c \<noteq> [] then c else str)))"
| "listener (ErrorEv (FalsyErr str)) = (''error'', Some str)"

text \<open>
  The state of one call: the flag \<open>resolved\<close>, how often \<open>socket.destroy\<close> ran, and the
  value the promise was resolved with, if it was.
\<close>

record probe_state =
  resolved :: bool
  destroyed :: nat
  settled :: "probe_result option"

definition onDone :: "jsval \<Rightarrow> jsnum \<Rightarrow> probe_state \<Rightarrow> string \<times> string option \<Rightarrow> probe_state" where
  "onDone host port st result =
     (if resolved st then st
      else \<lparr>resolved = True, destroyed = destroyed st + 1,
            settled = Some \<lparr>pr_host = host, pr_port = port,
                             pr_status = fst result, pr_error = snd result\<rparr>\<rparr>)"

text \<open>The listeners run on the events \<open>evs\<close> that the socket emits, in this order.\<close>

definition probe_run :: "jsval \<Rightarrow> jsnum \<Rightarrow> sock_event list \<Rightarrow> probe_state" where
  "probe_run host port evs =
     foldl (\<lambda>st ev. onDone host port st (listener ev))
       \<lparr>resolved = False, destroyed = 0, settled = None\<rparr> evs"

text \<open>
  The module \<open>net\<close> of Node is imported by the server and is not part of it.  What the
  server needs of a socket are parameters of the model: what \<open>socket.setTimeout(msecs)\<close>
  throws (\<open>None\<close>: it returns), what \<open>socket.connect(port, host)\<close> throws (\<open>None\<close>: it
  returns), and the events the socket emits once it connects to a host and port with a
  timeout.
\<close>

record net_js =
  socket_setTimeout :: "jsnum \<Rightarrow> js_error option"
  socket_connect :: "jsnum \<Rightarrow> jsval \<Rightarrow> js_error option"
  socket_events :: "jsval \<Rightarrow> jsnum \<Rightarrow> jsnum \<Rightarrow> sock_event list"

text \<open>
  \<open>checkTcpPort(host, port, timeoutMs)\<close>.  The body runs inside the executor of
  \<open>new Promise\<close>, which has no \<open>try\<close> around it: when \<open>socket.setTimeout\<close> on line 95
  or \<open>socket.connect\<close> on line 105 throws, the promise rejects with what was thrown.
  Otherwise the first event resolves it.  \<open>None\<close>: the promise stays pending; \<open>Inl e\<close>:
  it rejects with \<open>e\<close>; \<open>Inr r\<close>: it resolves with \<open>r\<close>.
\<close>

definition checkTcpPort ::
  "net_js \<Rightarrow> jsval \<Rightarrow> jsnum \<Rightarrow> jsnum \<Rightarrow> (js_error + probe_result) option" where
  "checkTcpPort nt host port timeoutMs =
     (case socket_setTimeout nt timeoutMs of
        Some e \<Rightarrow> Some (Inl e)
      | None \<Rightarrow>
          (case socket_connect nt port host of
             Some e \<Rightarrow> Some (Inl e)
           | None \<Rightarrow>
               map_option Inr
                 (settled (probe_run host port (socket_events nt host port timeoutMs)))))"

section \<open>The bounded scheduler\<close>

text \<open>
  What a call \<open>fn(item)\<close> comes to: it returns (or its promise fulfils with) a value, or
  it throws (or its promise rejects with) a value \<open>e\<close>, kept as the string \<open>String(e)\<close>.
\<close>

datatype 'b outcome = Returns 'b | Throws string

text \<open>An entry of the output array: the worker's value, or the object \<open>{error: String(e)}\<close>.\<close>

datatype 'b item_result = Value 'b | ErrorObj string

datatype 'r promise = Pending | Fulfilled 'r | Rejected string

text \<open>The wrapper on lines 113 to 115: \<open>try { return await fn(item) } catch (e) { ... }\<close>.\<close>

fun wrap :: "'b outcome \<Rightarrow> 'b item_result" where
  "wrap (Returns v) = Value v"
| "wrap (Throws e) = ErrorObj e"

definition wrapper :: "'b outcome \<Rightarrow> 'b item_result promise" where
  "wrapper out = Fulfilled (wrap out)"

text \<open>
  \<open>Promise.all\<close>: rejected when one of the promises is, fulfilled with the values in
  the order of the array when all of them are, pending otherwise.
\<close>

fun promise_all :: "'r promise list \<Rightarrow> 'r list promise" where
  "promise_all [] = Fulfilled []"
| "promise_all (Rejected e # ps) = Rejected e"
| "promise_all (Pending # ps) =
     (case promise_all ps of Rejected e \<Rightarrow> Rejected e | other \<Rightarrow> Pending)"
| "promise_all (Fulfilled v # ps) =
     (case promise_all ps of
        Fulfilled vs \<Rightarrow> Fulfilled (v # vs)
      | Pending \<Rightarrow> Pending
      | Rejected e \<Rightarrow> Rejected e)"

text \<open>
  The state of one call of \<open>mapWithConcurrency\<close>: the items the \<open>for\<close> loop has not
  taken yet, the items it has called \<open>fn\<close> on, the array \<open>results\<close> of the wrapper
  promises (the promise of the \<open>i\<close>-th started item at index \<open>i\<close>), the set \<open>executing\<close>
  (as the list of the indices of its promises), and where the function is: running the
  loop, suspended in \<open>await Promise.race(executing)\<close>, woken (the race has settled and
  the loop will go on), or past the loop, where it has returned \<open>Promise.all(results)\<close>.
\<close>

datatype control = Running | Awaiting | Woken | Done

record ('a, 'b) sched =
  todo :: "'a list"
  started :: "'a list"
  results :: "'b item_result promise list"
  executing :: "nat list"
  ctl :: control

definition init :: "'a list \<Rightarrow> ('a, 'b) sched" where
  "init items = \<lparr>todo = items, started = [], results = [], executing = [], ctl = Running\<rparr>"

text \<open>
  The steps.  \<open>launch\<close> is one pass through the loop body (lines 113 to 121): the
  wrapper is called, its promise is pushed and added to \<open>executing\<close>, and the loop
  suspends when the size of the set has reached \<open>concurrency\<close>.  \<open>finish\<close> leaves the
  loop.  \<open>settle\<close> is a pending wrapper promise settling with what its worker came to
  (the relation \<open>W\<close> gives the outcomes that \<open>fn\<close> can have on an item).  JavaScript
  runs the loop without interruption until it suspends, so no promise settles while the
  loop is running.  The \<open>finally\<close> callback of a promise was registered before any
  \<open>Promise.race\<close> saw the promise, so it removes the promise from \<open>executing\<close> before a
  suspended loop is resumed: both happen in the one step \<open>settle\<close>.
\<close>

inductive step :: "('a \<Rightarrow> 'b outcome \<Rightarrow> bool) \<Rightarrow> jsnum
     \<Rightarrow> ('a, 'b) sched \<Rightarrow> ('a, 'b) sched \<Rightarrow> bool"
  for W :: "'a \<Rightarrow> 'b outcome \<Rightarrow> bool" and concurrency :: jsnum where
  launch:
    "ctl s = Running \<or> ctl s = Woken \<Longrightarrow> todo s = item # items \<Longrightarrow>
     step W concurrency s
       \<lparr>todo = items,
        started = started s @ [item],
        results = results s @ [Pending],
        executing = executing s @ [length (results s)],
        ctl = (if js_ge (Fin (of_nat (length (executing s) + 1))) concurrency
               then Awaiting else Running)\<rparr>"
| finish:
    "ctl s = Running \<or> ctl s = Woken \<Longrightarrow> todo s = [] \<Longrightarrow>
     step W concurrency s
       \<lparr>todo = [], started = started s, results = results s,
        executing = executing s, ctl = Done\<rparr>"
| settle:
    "ctl s \<noteq> Running \<Longrightarrow> i < length (results s) \<Longrightarrow> results s ! i = Pending \<Longrightarrow>
     W (started s ! i) out \<Longrightarrow>
     step W concurrency s
       \<lparr>todo = todo s,
        started = started s,
        results = (results s)[i := wrapper out],
        executing = removeAll i (executing s),
        ctl = (if ctl s = Awaiting then Woken else ctl s)\<rparr>"

inductive runs :: "('a \<Rightarrow> 'b outcome \<Rightarrow> bool) \<Rightarrow> jsnum \<Rightarrow> 'a list
     \<Rightarrow> ('a, 'b) sched \<Rightarrow> bool"
  for W :: "'a \<Rightarrow> 'b outcome \<Rightarrow> bool" and concurrency :: jsnum and items :: "'a list" where
  start: "runs W concurrency items (init items)"
| further: "runs W concurrency items s \<Longrightarrow> step W concurrency s s' \<Longrightarrow> runs W concurrency items s'"

text \<open>The workers that were started and have not settled.\<close>

definition in_flight :: "('a, 'b) sched \<Rightarrow> nat" where
  "in_flight s = length (filter (\<lambda>p. p = Pending) (results s))"

text \<open>
  The promise that \<open>mapWithConcurrency\<close> returns: \<open>Promise.all(results)\<close> once the
  function is past the loop, pending until then.
\<close>

definition returned :: "('a, 'b) sched \<Rightarrow> 'b item_result list promise" where
  "returned s = (if ctl s = Done then promise_all (results s) else Pending)"

text \<open>What is left to do in a state; every step makes it smaller.\<close>

definition remaining :: "('a, 'b) sched \<Rightarrow> nat" where
  "remaining s = 3 * length (todo s) + 2 * in_flight s + (if ctl s = Done then 0 else 1)"

text \<open>
  One call of \<open>mapWithConcurrency\<close>, run to its end.  The function \<open>fn\<close> gives what the
  worker comes to on an item (\<open>None\<close>: its promise never settles), and \<open>order\<close> is the
  order in which the network lets the workers finish: of the promises in \<open>executing\<close>
  that are pending and will settle, it names the one that settles next (the first of
  them if it names none of them).  \<open>next_step\<close> is the step the call takes in a state:
  the loop goes on while it can, and otherwise the promise that \<open>order\<close> names settles;
  \<open>None\<close> when nothing is left to happen.
\<close>

definition can_settle :: "('a \<Rightarrow> 'b outcome option) \<Rightarrow> ('a, 'b) sched \<Rightarrow> nat \<Rightarrow> bool" where
  "can_settle fn s i =
     (i < length (results s) \<and> results s ! i = Pending \<and> fn (started s ! i) \<noteq> None)"

definition next_step ::
  "('a \<Rightarrow> 'b outcome option) \<Rightarrow> (nat list \<Rightarrow> nat) \<Rightarrow> jsnum
     \<Rightarrow> ('a, 'b) sched \<Rightarrow> ('a, 'b) sched option" where
  "next_step fn order concurrency s =
     (if ctl s = Running \<or> ctl s = Woken
      then (case todo s of
              [] \<Rightarrow>
                Some \<lparr>todo = [], started = started s, results = results s,
                      executing = executing s, ctl = Done\<rparr>
            | item # items \<Rightarrow>
                Some \<lparr>todo = items,
                      started = started s @ [item],
                      results = results s @ [Pending],
                      executing = executing s @ [length (results s)],
                      ctl = (if js_ge (Fin (of_nat (length (executing s) + 1))) concurrency
                             then Awaiting else Running)\<rparr>)
      else (case filter (can_settle fn s) (executing s) of
              [] \<Rightarrow> None
            | first # others \<Rightarrow>
                (let i = (if order (first # others) \<in> set (first # others)
                          then order (first # others) else first)
                 in map_option
                      (\<lambda>out. \<lparr>todo = todo s,
                              started = started s,
                              results = (results s)[i := wrapper out],
                              executing = removeAll i (executing s),
                              ctl = (if ctl s = Awaiting then Woken else ctl s)\<rparr>)
                      (fn (started s ! i)))))"

text \<open>Every step the call takes is a step of the relation, and leaves less to do.\<close>

lemma pending_after_update:
  "i < length ps \<Longrightarrow> ps ! i = Pending \<Longrightarrow> v \<noteq> Pending \<Longrightarrow>
     Suc (length (filter (\<lambda>p. p = Pending) (ps[i := v])))
       = length (filter (\<lambda>p. p = Pending) ps)"
proof (induction ps arbitrary: i)
  case Nil
  then show ?case by simp
next
  case (Cons p ps)
  then show ?case by (cases i) auto
qed

lemma step_decreases:
  assumes "step W c s s'"
  shows "remaining s' < remaining s"
  using assms
proof cases
  case (launch item rest)
  then show ?thesis by (auto simp: remaining_def in_flight_def)
next
  case finish
  then show ?thesis by (auto simp: remaining_def in_flight_def)
next
  case (settle i out)
  have "Suc (in_flight s') = in_flight s"
    using settle pending_after_update [of i "results s" "wrapper out"]
    by (simp add: in_flight_def wrapper_def)
  with settle show ?thesis by (auto simp: remaining_def)
qed

lemma next_step_step:
  assumes "next_step fn order c s = Some s'"
  shows "step (\<lambda>x out. fn x = Some out) c s s'"
proof (cases "ctl s = Running \<or> ctl s = Woken")
  case True
  show ?thesis
  proof (cases "todo s")
    case Nil
    with True assms have "s' = \<lparr>todo = [], started = started s, results = results s,
                                  executing = executing s, ctl = Done\<rparr>"
      by (simp add: next_step_def)
    with True Nil show ?thesis
      using step.finish [of s "\<lambda>x out. fn x = Some out" c] by simp
  next
    case (Cons item items)
    with True assms have "s' = \<lparr>todo = items,
        started = started s @ [item],
        results = results s @ [Pending],
        executing = executing s @ [length (results s)],
        ctl = (if js_ge (Fin (of_nat (length (executing s) + 1))) c
               then Awaiting else Running)\<rparr>"
      by (simp add: next_step_def)
    with True Cons show ?thesis
      using step.launch [of s item items "\<lambda>x out. fn x = Some out" c] by simp
  qed
next
  case False
  then have running: "ctl s \<noteq> Running" by simp
  obtain first others where ready: "filter (can_settle fn s) (executing s) = first # others"
    using assms False by (cases "filter (can_settle fn s) (executing s)") (simp_all add: next_step_def)
  define i where "i = (if order (first # others) \<in> set (first # others)
                        then order (first # others) else first)"
  have "i \<in> set (first # others)" by (simp add: i_def)
  then have "i \<in> set (filter (can_settle fn s) (executing s))" using ready by simp
  then have can: "can_settle fn s i" by simp
  obtain out where out: "fn (started s ! i) = Some out"
    using can by (auto simp: can_settle_def)
  have "s' = \<lparr>todo = todo s,
              started = started s,
              results = (results s)[i := wrapper out],
              executing = removeAll i (executing s),
              ctl = (if ctl s = Awaiting then Woken else ctl s)\<rparr>"
    using assms False ready out by (simp add: next_step_def Let_def i_def)
  moreover have "i < length (results s)" "results s ! i = Pending"
    using can by (simp_all add: can_settle_def)
  ultimately show ?thesis
    using running out step.settle [of s i "\<lambda>x out. fn x = Some out" out c] by simp
qed

function drive ::
  "('a \<Rightarrow> 'b outcome option) \<Rightarrow> (nat list \<Rightarrow> nat) \<Rightarrow> jsnum
     \<Rightarrow> ('a, 'b) sched \<Rightarrow> ('a, 'b) sched" where
  "drive fn order concurrency s =
     (case next_step fn order concurrency s of
        None \<Rightarrow> s
      | Some s' \<Rightarrow> drive fn order concurrency s')"
  by pat_completeness auto
termination
proof (relation "measure (\<lambda>(fn, order, concurrency, s). remaining s)")
  show "wf (measure (\<lambda>(fn, order, concurrency, s). remaining s))" by simp
next
  fix fn :: "'a \<Rightarrow> 'b outcome option" and order :: "nat list \<Rightarrow> nat"
    and concurrency :: jsnum and s s' :: "('a, 'b) sched"
  assume "next_step fn order concurrency s = Some s'"
  then have "step (\<lambda>x out. fn x = Some out) concurrency s s'"
    by (rule next_step_step)
  then have "remaining s' < remaining s"
    by (rule step_decreases)
  then show "((fn, order, concurrency, s'), (fn, order, concurrency, s))
               \<in> measure (\<lambda>(fn, order, concurrency, s). remaining s)"
    by simp
qed

declare drive.simps [simp del]

text \<open>
  \<open>mapWithConcurrency(items, fn, concurrency)\<close>: the promise the call has returned when
  nothing is left to happen.
\<close>

definition mapWithConcurrency ::
  "(nat list \<Rightarrow> nat) \<Rightarrow> 'a list \<Rightarrow> ('a \<Rightarrow> 'b outcome option) \<Rightarrow> jsnum
     \<Rightarrow> 'b item_result list promise" where
  "mapWithConcurrency order items fn concurrency =
     returned (drive fn order concurrency (init items))"

text \<open>
  What holds in every state a call can reach: each started item has its promise, the
  set \<open>executing\<close> holds exactly the pending promises, a settled promise is fulfilled
  with what the wrapper made of an outcome of its own item, a suspended loop has a
  promise to wait for, and past the loop no item is left.
\<close>

definition sched_inv :: "('a \<Rightarrow> 'b outcome \<Rightarrow> bool) \<Rightarrow> 'a list \<Rightarrow> ('a, 'b) sched \<Rightarrow> bool" where
  "sched_inv W items s =
     (length (results s) = length (started s)
      \<and> started s @ todo s = items
      \<and> distinct (executing s)
      \<and> set (executing s) = {i. i < length (results s) \<and> results s ! i = Pending}
      \<and> (\<forall>i < length (results s).
            results s ! i = Pending
            \<or> (\<exists>out. W (started s ! i) out \<and> results s ! i = Fulfilled (wrap out)))
      \<and> (ctl s = Awaiting \<longrightarrow> executing s \<noteq> [])
      \<and> (ctl s = Done \<longrightarrow> todo s = []))"

section \<open>The handlers\<close>

definition MAX_PORT_RANGE :: int where
  "MAX_PORT_RANGE = 200"

definition MAX_CONCURRENCY :: jsnum where
  "MAX_CONCURRENCY = Fin 50"

definition DEFAULT_TIMEOUT_MS :: jsnum where
  "DEFAULT_TIMEOUT_MS = Fin 2000"

text \<open>The value of \<open>ALLOWLIST\<close> when the environment variable is not set.\<close>

definition DEFAULT_ALLOWLIST :: "string list" where
  "DEFAULT_ALLOWLIST =
     [''127.0.0.1'', ''localhost'', ''10.0.0.0/8'', ''172.16.0.0/12'', ''192.168.0.0/16'']"

text \<open>
  What a handler depends on besides the request: the package \<open>ipaddr.js\<close>, the constant
  \<open>ALLOWLIST\<close>, the answers of \<open>dns.lookup\<close>, the module \<open>net\<close>, and the order in which
  the probes of a scan finish.
\<close>

record 'a env =
  lib :: "'a ipaddr_js"
  allowlist :: "string list"
  dns_lookup :: "string \<Rightarrow> string list option"
  net :: net_js
  settle_order :: "nat list \<Rightarrow> nat"

text \<open>The calls a handler makes, in order.\<close>

datatype effect =
    Authorize jsval
  | DnsLookup string
  | Probe jsval jsnum jsnum
  | Scan jsval "int list" jsnum jsnum

datatype body =
    ErrorBody string
  | CheckOk probe_result
  | ScanOk jsval nat "probe_result item_result list"

text \<open>
  What becomes of a request: a response with its status and JSON body, an exception out
  of the handler (a promise it awaits rejects, and the handler has no \<open>try\<close>), or no
  response because a probe never settles.
\<close>

datatype reply = Reply nat body | Threw js_error | NoReply


text \<open>
  \<open>GET /tcp/check\<close>, after \<open>requireApiKey\<close> has let the request pass.  The three values
  the handler reads from the query are the fields of the request:
  \<open>(req.query.host || "").toString().trim()\<close>, \<open>Number(req.query.port || 0)\<close> and
  \<open>Number(req.query.timeout)\<close>.
\<close>

record check_query =
  q_host :: string
  q_port :: jsnum
  q_timeout :: jsnum

definition tcp_check :: "'a env \<Rightarrow> check_query \<Rightarrow> reply \<times> effect list" where
  "tcp_check env q =
     (let host = q_host q;
          port = q_port q;
          timeoutMs = num_or (q_timeout q) DEFAULT_TIMEOUT_MS
      in if host = [] \<or> \<not> num_truthy port
         then (Reply 400 (ErrorBody ''missing host or port''), [])
         else (case hostAllowedAsync (lib env) (allowlist env) (dns_lookup env) (JStr host) of
                 (Inl e, looked) \<Rightarrow> (Threw e, Authorize (JStr host) # map DnsLookup looked)
               | (Inr allowed, looked) \<Rightarrow>
                   (let calls = Authorize (JStr host) # map DnsLookup looked in
                    if \<not> allowed
                    then (Reply 403 (ErrorBody ''host not allowed by server policy''), calls)
                    else if js_lt port (Fin 1) \<or> js_lt (Fin 65535) port
                    then (Reply 400 (ErrorBody ''port out of range''), calls)
                    else (case checkTcpPort (net env) (JStr host) port timeoutMs of
                            None \<Rightarrow> (NoReply, calls @ [Probe (JStr host) port timeoutMs])
                          | Some (Inl e) \<Rightarrow>
                              (Threw e, calls @ [Probe (JStr host) port timeoutMs])
                          | Some (Inr result) \<Rightarrow>
                              (Reply 200 (CheckOk result),
                               calls @ [Probe (JStr host) port timeoutMs])))))"

text \<open>Decimal digits of a number, for the message of the range check.\<close>

fun decimal :: "nat \<Rightarrow> string" where
  "decimal n =
     (if n < 10 then [''0123456789'' ! n]
      else decimal (n div 10) @ [''0123456789'' ! (n mod 10)])"

definition num_of_int :: "int \<Rightarrow> jsnum" where
  "num_of_int k = Fin (rat_of_int k)"

text \<open>
  \<open>POST /tcp/scan-range\<close>, after \<open>requireApiKey\<close>.  The fields of the request are the
  properties \<open>host\<close>, \<open>start\<close> and \<open>end\<close> of the JSON body (\<open>JUndefined\<close> when absent)
  and the two numbers \<open>Number(req.body?.timeout)\<close> and \<open>Number(req.body?.concurrency)\<close>.
  After \<open>Number.isInteger\<close> the bounds are integers, and lines 152 to 156 compute with
  them exactly.  The call of \<open>mapWithConcurrency\<close> is recorded with its arguments, and
  the handler answers with what the promise of that call fulfils with.
\<close>

record scan_body =
  b_host :: jsval
  b_start :: jsval
  b_end :: jsval
  b_timeout :: jsnum
  b_concurrency :: jsnum

definition range_too_large :: "int \<Rightarrow> string" where
  "range_too_large count =
     ''range too large ('' @ decimal (nat count) @ '' ports); max allowed ''
       @ decimal (nat MAX_PORT_RANGE)"

text \<open>
  The worker of the scan, \<open>(port) => checkTcpPort(host, port, timeoutMs)\<close>: it returns
  what the probe resolves with, throws what the probe rejects with (kept as its
  \<open>String\<close>), and never settles when the probe stays pending.
\<close>

definition probe_worker ::
  "'a env \<Rightarrow> jsval \<Rightarrow> jsnum \<Rightarrow> int \<Rightarrow> probe_result outcome option" where
  "probe_worker env host timeoutMs port =
     (case checkTcpPort (net env) host (num_of_int port) timeoutMs of
        None \<Rightarrow> None
      | Some (Inl e) \<Rightarrow> Some (Throws (to_String e))
      | Some (Inr r) \<Rightarrow> Some (Returns r))"

text \<open>Lines 152 to 155: both bounds are clamped into 1..65535 and put in order.\<close>

definition port_range :: "int \<Rightarrow> int \<Rightarrow> int \<times> int" where
  "port_range start en =
     (let s = max 1 (min 65535 start);
          e = max 1 (min 65535 en)
      in (min s e, max s e))"

text \<open>The same worker as the relation the steps of the scheduler take.\<close>

definition probe_outcome ::
  "'a env \<Rightarrow> jsval \<Rightarrow> jsnum \<Rightarrow> int \<Rightarrow> probe_result outcome \<Rightarrow> bool" where
  "probe_outcome env host timeoutMs port out =
     (probe_worker env host timeoutMs port = Some out)"

definition tcp_scan_range :: "'a env \<Rightarrow> scan_body \<Rightarrow> reply \<times> effect list" where
  "tcp_scan_range env b =
     (let host = b_host b;
          start = b_start b;
          en = b_end b;
          timeoutMs = num_or (b_timeout b) DEFAULT_TIMEOUT_MS;
          concurrency = num_or (b_concurrency b) (math_min MAX_CONCURRENCY (Fin 20))
      in if \<not> truthy host \<or> \<not> isInteger start \<or> \<not> isInteger en
         then (Reply 400 (ErrorBody ''body must include host, start, end (integers)''), [])
         else (case hostAllowedAsync (lib env) (allowlist env) (dns_lookup env) host of
                 (Inl e, looked) \<Rightarrow> (Threw e, Authorize host # map DnsLookup looked)
               | (Inr allowed, looked) \<Rightarrow>
                   (let calls = Authorize host # map DnsLookup looked in
                    if \<not> allowed
                    then (Reply 403 (ErrorBody ''host not allowed by server policy''), calls)
                    else
                      (let (mn, mx) = port_range (int_value start) (int_value en);
                           count = mx - mn + 1
                       in if count > MAX_PORT_RANGE
                          then (Reply 400 (ErrorBody (range_too_large count)), calls)
                          else
                            (let limit = math_max (Fin 1) (math_min MAX_CONCURRENCY concurrency);
                                 ports = [mn..mx]
                             in (case mapWithConcurrency (settle_order env) ports
                                        (probe_worker env host timeoutMs) limit of
                                   Pending \<Rightarrow>
                                     (NoReply, calls @ [Scan host ports timeoutMs limit])
                                 | Fulfilled rs \<Rightarrow>
                                     (Reply 200 (ScanOk host (length rs) rs),
                                      calls @ [Scan host ports timeoutMs limit])
                                 | Rejected e \<Rightarrow>
                                     (Threw (OtherError e),
                                      calls @ [Scan host ports timeoutMs limit])))))))"

section \<open>Stand-ins for ipaddr.js and for the module net\<close>

text \<open>
  To run the handlers on concrete requests the parameters need values.  This stand-in
  knows the four-part decimal IPv4 notation only (no leading zeros, each part at most
  255) and takes every other string as invalid; it matches a prefix by comparing the
  leading bits.  It is used on concrete inputs of this shape and on host names.
\<close>

definition octet :: "string \<Rightarrow> nat option" where
  "octet s =
     (if s \<noteq> [] \<and> length s \<le> 3 \<and> list_all is_digit s
         \<and> (length s = 1 \<or> hd s \<noteq> CHR ''0'') \<and> digits_value s \<le> 255
      then Some (digits_value s) else None)"

definition ipv4_parse :: "string \<Rightarrow> int option" where
  "ipv4_parse s =
     (case those (map octet (split_on (CHR ''.'') s)) of
        Some [a, b, c, d] \<Rightarrow> Some (((int a * 256 + int b) * 256 + int c) * 256 + int d)
      | other \<Rightarrow> None)"

definition ipv4_match :: "int \<Rightarrow> int \<Rightarrow> jsnum \<Rightarrow> bool option" where
  "ipv4_match a b len =
     Some (case len of
             Fin r \<Rightarrow>
               (if r \<le> 0 then True
                else if 32 \<le> r then a = b
                else a div 2 ^ (32 - nat \<lfloor>r\<rfloor>) = b div 2 ^ (32 - nat \<lfloor>r\<rfloor>))
           | PosInf \<Rightarrow> a = b
           | other \<Rightarrow> True)"

definition ipv4_lib :: "int ipaddr_js" where
  "ipv4_lib = \<lparr>ip_isValid = (\<lambda>s. ipv4_parse s \<noteq> None), ip_parse = ipv4_parse,
               ip_match = ipv4_match\<rparr>"

text \<open>
  A resolver that knows one name, and a network in which only port 80 accepts.  The two
  socket methods throw as those of Node do (with the messages shortened):
  \<open>setTimeout\<close> on a timeout that is negative or not finite, \<open>connect\<close> on a port that is
  not a whole number from 0 to 65535.  Of the probes in flight the one started last
  finishes first.
\<close>

definition dns_local :: "string \<Rightarrow> string list option" where
  "dns_local name = (if name = ''localhost'' then Some [''127.0.0.1''] else None)"

definition events_local :: "jsval \<Rightarrow> jsnum \<Rightarrow> jsnum \<Rightarrow> sock_event list" where
  "events_local host port timeoutMs =
     (if port = Fin 80 then [Connect]
      else [ErrorEv (ErrObj (Some ''ECONNREFUSED'') ''Error: connect ECONNREFUSED'')])"

definition node_setTimeout :: "jsnum \<Rightarrow> js_error option" where
  "node_setTimeout msecs =
     (case msecs of
        Fin r \<Rightarrow>
          (if r < 0 then Some (RangeError ''ERR_OUT_OF_RANGE'' ''msecs is out of range'')
           else None)
      | other \<Rightarrow> Some (RangeError ''ERR_OUT_OF_RANGE'' ''msecs is out of range''))"

definition node_connect :: "jsnum \<Rightarrow> jsval \<Rightarrow> js_error option" where
  "node_connect port host =
     (case port of
        Fin r \<Rightarrow>
          (if rat_is_int r \<and> 0 \<le> r \<and> r \<le> 65535 then None
           else Some (RangeError ''ERR_SOCKET_BAD_PORT'' ''port should be >= 0 and < 65536''))
      | other \<Rightarrow> Some (RangeError ''ERR_SOCKET_BAD_PORT'' ''port should be >= 0 and < 65536''))"

definition net_local :: net_js where
  "net_local = \<lparr>socket_setTimeout = node_setTimeout, socket_connect = node_connect,
                socket_events = events_local\<rparr>"

definition env_local :: "int env" where
  "env_local = \<lparr>lib = ipv4_lib, allowlist = DEFAULT_ALLOWLIST,
                dns_lookup = dns_local, net = net_local, settle_order = last\<rparr>"

text \<open>A worker that throws on item 1 and returns ten times the item otherwise.\<close>

definition flaky :: "int \<Rightarrow> int outcome \<Rightarrow> bool" where
  "flaky x out = (out = (if x = 1 then Throws ''Error: boom'' else Returns (10 * x)))"

section \<open>What the specification says about the authorizer\<close>

text \<open>
  The three kinds of rule, as the server tells them apart: a rule with a slash is a
  CIDR rule, another rule that is a valid IP literal is an exact-IP rule, and any other
  rule is an exact-hostname rule.
\<close>

definition cidr_rule_matches :: "'a ipaddr_js \<Rightarrow> string \<Rightarrow> string \<Rightarrow> bool" where
  "cidr_rule_matches lb rule ip = (includes_slash rule \<and> cidrContains lb rule ip)"

definition ip_rule_matches :: "'a ipaddr_js \<Rightarrow> string \<Rightarrow> string \<Rightarrow> bool" where
  "ip_rule_matches lb rule ip = (\<not> includes_slash rule \<and> ip_isValid lb rule \<and> ip = rule)"

definition hostname_rule_matches :: "'a ipaddr_js \<Rightarrow> string \<Rightarrow> string \<Rightarrow> bool" where
  "hostname_rule_matches lb rule name =
     (\<not> includes_slash rule \<and> \<not> ip_isValid lb rule \<and> name = rule)"

text \<open>
  Section 4.2, step 2, in the specification's words: for a host that is an IP literal
  after its port suffix is stripped, some rule matches this IP, or an exact-hostname
  rule equals the original, unstripped string.
\<close>

definition spec_ip_authorized :: "'a ipaddr_js \<Rightarrow> string list \<Rightarrow> string \<Rightarrow> bool" where
  "spec_ip_authorized lb rules host =
     list_ex (\<lambda>rule. cidr_rule_matches lb rule (strip_port host)
                \<or> ip_rule_matches lb rule (strip_port host)
                \<or> hostname_rule_matches lb rule host) rules"

text \<open>
  Section 4.2, step 4, in the specification's words: some resolved address matches some
  CIDR or exact-IP rule, or an exact-hostname rule matches the original string.
\<close>

definition spec_name_authorized ::
  "'a ipaddr_js \<Rightarrow> string list \<Rightarrow> string \<Rightarrow> string list \<Rightarrow> bool" where
  "spec_name_authorized lb rules host addresses =
     (list_ex (\<lambda>addr. list_ex (\<lambda>rule. cidr_rule_matches lb rule addr
                                   \<or> ip_rule_matches lb rule addr) rules) addresses
      \<or> list_ex (\<lambda>rule. hostname_rule_matches lb rule host) rules)"

section \<open>Facts about the classifier and the authorizer\<close>

text \<open>
  \<open>cidrContains\<close> is false unless the rule has a slash and both strings parse, and it
  looks for the address in the block of the rule, not the other way round.
\<close>

lemma cidrContains_needs:
  assumes "cidrContains lb cidr ip"
  shows "includes_slash cidr \<and> ip_parse lb ip \<noteq> None"
  using assms
  by (auto simp: cidrContains_def Let_def split: if_splits list.splits option.splits)

lemma cidrContains_examples:
  "cidrContains ipv4_lib ''10.0.0.0/8'' ''10.200.3.4''
   \<and> \<not> cidrContains ipv4_lib ''10.200.3.4/32'' ''10.0.0.0''
   \<and> \<not> cidrContains ipv4_lib ''10.0.0.0/8'' ''11.0.0.1''
   \<and> \<not> cidrContains ipv4_lib ''10.0.0.0'' ''10.0.0.0''
   \<and> \<not> cidrContains ipv4_lib ''10.0.0.0/8'' ''localhost''"
  by code_simp

lemma hostAllowedAsync_string:
  "\<exists>allowed looked. hostAllowedAsync lb rules dns (JStr h) = (Inr allowed, looked)"
  by (auto simp add: hostAllowedAsync_def Let_def split: option.split)

section \<open>The single-port check\<close>

text \<open>
  C10.  On \<open>GET /tcp/check\<close>, a request whose port converts to NaN or to zero is answered
  with status 400 and the message "missing host or port"; the handler makes no call at
  all: it does not reach the Authorizer, the range check or a probe.
\<close>

theorem check_port_zero_or_nan:
  assumes "q_port q = NaN \<or> q_port q = Fin 0"
  shows "tcp_check env q = (Reply 400 (ErrorBody ''missing host or port''), [])"
  using assms by (auto simp: tcp_check_def Let_def)

theorem check_port_zero_or_nan_witness:
  "(q_port \<lparr>q_host = ''127.0.0.1'', q_port = NaN, q_timeout = NaN\<rparr> = NaN
      \<or> q_port \<lparr>q_host = ''127.0.0.1'', q_port = NaN, q_timeout = NaN\<rparr> = Fin 0)
   \<and> tcp_check env_local \<lparr>q_host = ''127.0.0.1'', q_port = NaN, q_timeout = NaN\<rparr>
       = (Reply 400 (ErrorBody ''missing host or port''), [])"
  using check_port_zero_or_nan
    [of "\<lparr>q_host = ''127.0.0.1'', q_port = NaN, q_timeout = NaN\<rparr>" env_local]
  by simp

text \<open>
  C2, as the claim states it, fails: with the default allowlist, the request for host
  8.8.8.8 and port 70000 is answered with 403, not with 400.
\<close>

theorem check_range_before_authorizer_counterexample:
  "js_lt (Fin 65535) (Fin 70000)
   \<and> tcp_check env_local \<lparr>q_host = ''8.8.8.8'', q_port = Fin 70000, q_timeout = NaN\<rparr>
       = (Reply 403 (ErrorBody ''host not allowed by server policy''),
          [Authorize (JStr ''8.8.8.8'')])"
  by code_simp

text \<open>
  C2, amended.  For a request whose port is below 1 or above 65535: when the host is
  empty or the port is zero, the answer is 400 "missing host or port" and nothing is
  called; otherwise the Authorizer is called first, and the answer is 403 when it
  rejects the host and 400 "port out of range" when it allows it.  No probe is made in
  any of these cases.
\<close>

theorem check_port_out_of_range:
  assumes "js_lt (q_port q) (Fin 1) \<or> js_lt (Fin 65535) (q_port q)"
      and "auth = hostAllowedAsync (lib env) (allowlist env) (dns_lookup env) (JStr (q_host q))"
  shows "tcp_check env q =
           (if q_host q = [] \<or> q_port q = Fin 0
            then (Reply 400 (ErrorBody ''missing host or port''), [])
            else if fst auth = Inr True
            then (Reply 400 (ErrorBody ''port out of range''),
                  Authorize (JStr (q_host q)) # map DnsLookup (snd auth))
            else (Reply 403 (ErrorBody ''host not allowed by server policy''),
                  Authorize (JStr (q_host q)) # map DnsLookup (snd auth)))"
proof -
  obtain allowed looked where auth: "auth = (Inr allowed, looked)"
    using hostAllowedAsync_string assms(2) by blast
  have truthy: "num_truthy (q_port q) \<longleftrightarrow> q_port q \<noteq> Fin 0"
    using assms(1) by (cases "q_port q") auto
  show ?thesis
    using assms(1) auth truthy assms(2) [symmetric]
    by (auto simp: tcp_check_def Let_def)
qed

theorem check_port_out_of_range_witness:
  "(js_lt (q_port \<lparr>q_host = ''127.0.0.1'', q_port = Fin 70000, q_timeout = NaN\<rparr>) (Fin 1)
      \<or> js_lt (Fin 65535) (q_port \<lparr>q_host = ''127.0.0.1'', q_port = Fin 70000, q_timeout = NaN\<rparr>))
   \<and> tcp_check env_local \<lparr>q_host = ''127.0.0.1'', q_port = Fin 70000, q_timeout = NaN\<rparr>
       = (Reply 400 (ErrorBody ''port out of range''), [Authorize (JStr ''127.0.0.1'')])"
proof -
  have run: "hostAllowedAsync (lib env_local) (allowlist env_local) (dns_lookup env_local)
               (JStr ''127.0.0.1'') = (Inr True, [])"
    by code_simp
  show ?thesis
    using check_port_out_of_range
      [of "\<lparr>q_host = ''127.0.0.1'', q_port = Fin 70000, q_timeout = NaN\<rparr>" _ env_local,
       OF _ refl]
    by (simp add: run)
qed

text \<open>
  C9.  The check endpoint passes a port that is not an integer to the probe: the request
  for the allowed host 127.0.0.1 and port 1.5 passes every check of the handler, and
  \<open>checkTcpPort\<close> is called with port 1.5.  (The range scan tests its bounds with
  \<open>Number.isInteger\<close>; the single-port check has no such test.)
\<close>

theorem check_probes_fractional_port:
  "\<not> rat_is_int (3 / 2)
   \<and> snd (tcp_check env_local \<lparr>q_host = ''127.0.0.1'', q_port = Fin (3 / 2), q_timeout = NaN\<rparr>)
       = [Authorize (JStr ''127.0.0.1''), Probe (JStr ''127.0.0.1'') (Fin (3 / 2)) (Fin 2000)]"
  by code_simp

text \<open>
  What the handler does guarantee about a probed port: it is a finite number between 1
  and 65535.
\<close>

lemma check_probed_port_range:
  assumes "Probe h p t \<in> set (snd (tcp_check env q))"
  shows "\<exists>r. p = Fin r \<and> 1 \<le> r \<and> r \<le> 65535"
proof -
  obtain allowed looked where auth:
    "hostAllowedAsync (lib env) (allowlist env) (dns_lookup env) (JStr (q_host q))
       = (Inr allowed, looked)"
    using hostAllowedAsync_string by blast
  have "p = q_port q \<and> \<not> js_lt (q_port q) (Fin 1) \<and> \<not> js_lt (Fin 65535) (q_port q)
        \<and> num_truthy (q_port q)"
    using assms auth
    by (auto simp: tcp_check_def Let_def image_iff split: if_splits option.splits sum.splits)
  then show ?thesis
    by (cases "q_port q") auto
qed

text \<open>
  With port 1.5 the call \<open>socket.connect(1.5, host)\<close> throws, so the request is not
  answered: the handler throws.
\<close>

lemma check_fractional_port_throws:
  "fst (tcp_check env_local \<lparr>q_host = ''127.0.0.1'', q_port = Fin (3 / 2), q_timeout = NaN\<rparr>)
     = Threw (RangeError ''ERR_SOCKET_BAD_PORT'' ''port should be >= 0 and < 65536'')"
  by code_simp

section \<open>The port probe: what it resolves with, and when it rejects\<close>

lemma onDone_resolved:
  "resolved st \<Longrightarrow> foldl (\<lambda>st ev. onDone host port st (listener ev)) st evs = st"
  by (induction evs) (simp_all add: onDone_def)

lemma settled_first:
  "settled (probe_run host port (ev # evs)) =
     Some \<lparr>pr_host = host, pr_port = port, pr_status = fst (listener ev),
            pr_error = snd (listener ev)\<rparr>"
proof -
  let ?st = "onDone host port \<lparr>resolved = False, destroyed = 0, settled = None\<rparr> (listener ev)"
  have "resolved ?st" by (simp add: onDone_def)
  then have "probe_run host port (ev # evs) = ?st"
    by (simp add: probe_run_def onDone_resolved)
  then show ?thesis by (simp add: onDone_def)
qed

lemma checkTcpPort_accepted:
  assumes "socket_setTimeout nt t = None" and "socket_connect nt port host = None"
  shows "checkTcpPort nt host port t =
           map_option Inr (settled (probe_run host port (socket_events nt host port t)))"
  using assms by (simp add: checkTcpPort_def)

lemma checkTcpPort_first:
  assumes "socket_setTimeout nt t = None" and "socket_connect nt port host = None"
      and "socket_events nt host port t = ev # evs"
  shows "checkTcpPort nt host port t =
           Some (Inr \<lparr>pr_host = host, pr_port = port, pr_status = fst (listener ev),
                      pr_error = snd (listener ev)\<rparr>)"
  using assms by (simp add: checkTcpPort_accepted settled_first)

text \<open>
  When neither \<open>socket.setTimeout\<close> nor \<open>socket.connect\<close> throws, the first event of the
  socket decides the result, whatever follows it: connect gives status open; timeout
  gives status timeout; an error whose code is ECONNREFUSED gives status closed with
  that code as the error; any other error gives status error with the error's code, or
  its string when it has no code, as the error.  The promise does not reject, and it
  resolves if and only if the socket emits an event.
\<close>

lemma probe_classifies:
  assumes "socket_setTimeout nt t = None" and "socket_connect nt port host = None"
      and "socket_events nt host port t = ev # evs"
  shows "(ev = Connect \<longrightarrow> checkTcpPort nt host port t
            = Some (Inr \<lparr>pr_host = host, pr_port = port, pr_status = ''open'',
                        pr_error = None\<rparr>))
         \<and> (ev = TimeoutEv \<longrightarrow> checkTcpPort nt host port t
            = Some (Inr \<lparr>pr_host = host, pr_port = port, pr_status = ''timeout'',
                        pr_error = None\<rparr>))
         \<and> (ev = ErrorEv (ErrObj (Some ''ECONNREFUSED'') str) \<longrightarrow> checkTcpPort nt host port t
            = Some (Inr \<lparr>pr_host = host, pr_port = port, pr_status = ''closed'',
                        pr_error = Some ''ECONNREFUSED''\<rparr>))
         \<and> (ev = ErrorEv (ErrObj code str) \<and> code \<noteq> Some ''ECONNREFUSED'' \<longrightarrow>
              checkTcpPort nt host port t
            = Some (Inr \<lparr>pr_host = host, pr_port = port, pr_status = ''error'',
                        pr_error = Some (case code of None \<Rightarrow> str
                                         | Some c \<Rightarrow> if c \<noteq> [] then c else str)\<rparr>))
         \<and> (ev = ErrorEv (FalsyErr str) \<longrightarrow> checkTcpPort nt host port t
            = Some (Inr \<lparr>pr_host = host, pr_port = port, pr_status = ''error'',
                        pr_error = Some str\<rparr>))"
  using checkTcpPort_first [OF assms] by auto

lemma probe_pending:
  assumes "socket_setTimeout nt t = None" and "socket_connect nt port host = None"
  shows "checkTcpPort nt host port t = None \<longleftrightarrow> socket_events nt host port t = []"
proof (cases "socket_events nt host port t")
  case Nil
  with assms show ?thesis
    by (simp add: checkTcpPort_accepted probe_run_def)
next
  case (Cons ev evs)
  with assms show ?thesis
    by (simp add: checkTcpPort_first)
qed

text \<open>The promise rejects exactly when one of the two socket methods throws.\<close>

lemma probe_rejects:
  "checkTcpPort nt host port t = Some (Inl e) \<longleftrightarrow>
     socket_setTimeout nt t = Some e
     \<or> (socket_setTimeout nt t = None \<and> socket_connect nt port host = Some e)"
  by (auto simp: checkTcpPort_def split: option.splits)

text \<open>
  C7.  The probe does not resolve in every case.  \<open>GET /tcp/check\<close> hands
  \<open>Number(req.query.timeout)\<close> to the probe unchecked; for the timeout -1 the call
  \<open>socket.setTimeout(-1)\<close> throws inside the executor of the promise, the promise of
  \<open>checkTcpPort\<close> rejects, and the handler throws instead of answering.  (The outcomes
  the claim lists are classified as it says whenever the two socket methods accept their
  arguments: lemma \<open>probe_classifies\<close>.)
\<close>

theorem probe_rejects_negative_timeout:
  "checkTcpPort (net env_local) (JStr ''127.0.0.1'') (Fin 80) (Fin (- 1))
     = Some (Inl (RangeError ''ERR_OUT_OF_RANGE'' ''msecs is out of range''))
   \<and> tcp_check env_local \<lparr>q_host = ''127.0.0.1'', q_port = Fin 80, q_timeout = Fin (- 1)\<rparr>
     = (Threw (RangeError ''ERR_OUT_OF_RANGE'' ''msecs is out of range''),
        [Authorize (JStr ''127.0.0.1''), Probe (JStr ''127.0.0.1'') (Fin 80) (Fin (- 1))])"
  by code_simp

text \<open>The same request with the default timeout is answered.\<close>

lemma probe_default_timeout:
  "tcp_check env_local \<lparr>q_host = ''127.0.0.1'', q_port = Fin 80, q_timeout = NaN\<rparr>
     = (Reply 200 (CheckOk \<lparr>pr_host = JStr ''127.0.0.1'', pr_port = Fin 80,
                              pr_status = ''open'', pr_error = None\<rparr>),
        [Authorize (JStr ''127.0.0.1''), Probe (JStr ''127.0.0.1'') (Fin 80) (Fin 2000)])"
  by code_simp

section \<open>The range scan\<close>





section \<open>The scheduler: invariant, output, progress\<close>

lemma promise_all_map_Fulfilled: "promise_all (map Fulfilled vs) = Fulfilled vs"
  by (induction vs) simp_all

lemma promise_all_Fulfilled: "promise_all ps = Fulfilled vs \<Longrightarrow> ps = map Fulfilled vs"
  by (induction ps arbitrary: vs rule: promise_all.induct) (auto split: promise.splits)

lemma promise_all_Rejected: "promise_all ps = Rejected e \<Longrightarrow> Rejected e \<in> set ps"
  by (induction ps rule: promise_all.induct) (auto split: promise.splits)

lemma promise_all_Pending: "promise_all ps = Pending \<Longrightarrow> Pending \<in> set ps"
  by (induction ps rule: promise_all.induct) (auto split: promise.splits)

lemma inv_init: "sched_inv W items (init items)"
  by (simp add: sched_inv_def init_def)

lemma inv_launch:
  assumes "sched_inv W items s" and "todo s = item # rest" and "k \<noteq> Done"
  shows "sched_inv W items
       \<lparr>todo = rest, started = started s @ [item], results = results s @ [Pending],
        executing = executing s @ [length (results s)], ctl = k\<rparr>"
proof -
  have set_eq: "{i. i < Suc (length (results s)) \<and> (results s @ [Pending]) ! i = Pending}
        = insert (length (results s)) {i. i < length (results s) \<and> results s ! i = Pending}"
    by (auto simp: nth_append less_Suc_eq)
  have fresh: "length (results s) \<notin> set (executing s)"
    using assms(1) by (simp add: sched_inv_def)
  show ?thesis
    using assms fresh set_eq
    by (auto simp: sched_inv_def nth_append less_Suc_eq)
qed

lemma inv_finish:
  assumes "sched_inv W items s" and "todo s = []"
  shows "sched_inv W items
       \<lparr>todo = [], started = started s, results = results s,
        executing = executing s, ctl = Done\<rparr>"
  using assms by (auto simp: sched_inv_def)

lemma inv_settle:
  assumes "sched_inv W items s" and "i < length (results s)" and "results s ! i = Pending"
      and "W (started s ! i) out" and "k \<noteq> Awaiting" and "k = Done \<longrightarrow> ctl s = Done"
  shows "sched_inv W items
       \<lparr>todo = todo s, started = started s, results = (results s)[i := wrapper out],
        executing = removeAll i (executing s), ctl = k\<rparr>"
proof -
  have set_eq: "{j. j < length (results s) \<and> (results s)[i := wrapper out] ! j = Pending}
        = {j. j < length (results s) \<and> results s ! j = Pending} - {i}"
    using assms(2) by (auto simp: nth_list_update wrapper_def)
  have each: "\<forall>j < length (results s).
        (results s)[i := wrapper out] ! j = Pending
        \<or> (\<exists>out'. W (started s ! j) out' \<and> (results s)[i := wrapper out] ! j = Fulfilled (wrap out'))"
    using assms(1,2,4) by (auto simp: sched_inv_def nth_list_update wrapper_def)
  show ?thesis
    using assms(1,5,6) set_eq each
    by (simp add: sched_inv_def distinct_removeAll)
qed

lemma inv_step:
  assumes "sched_inv W items s" and "step W c s s'"
  shows "sched_inv W items s'"
  using assms(2)
proof cases
  case (launch item rest)
  then show ?thesis using inv_launch [OF assms(1)] by simp
next
  case finish
  then show ?thesis using inv_finish [OF assms(1)] by simp
next
  case (settle i out)
  then show ?thesis using inv_settle [OF assms(1)] by simp
qed

lemma runs_inv: "runs W c items s \<Longrightarrow> sched_inv W items s"
  by (induction rule: runs.induct) (auto intro: inv_init inv_step)

lemma inv_in_flight: "sched_inv W items s \<Longrightarrow> in_flight s = length (executing s)"
proof -
  assume inv: "sched_inv W items s"
  then have "distinct (executing s)"
    by (simp add: sched_inv_def)
  then have "length (executing s) = card (set (executing s))"
    by (rule distinct_card [symmetric])
  also have "\<dots> = card {i. i < length (results s) \<and> results s ! i = Pending}"
    using inv by (simp add: sched_inv_def)
  also have "\<dots> = in_flight s"
    by (simp add: in_flight_def length_filter_conv_card)
  finally show ?thesis by simp
qed


lemma settle_shrinks:
  assumes "sched_inv W items s" and "i < length (results s)" and "results s ! i = Pending"
  shows "length (removeAll i (executing s)) < length (executing s)"
proof -
  have "i \<in> set (executing s)"
    using assms by (simp add: sched_inv_def)
  then show ?thesis
    by (simp add: length_removeAll_less)
qed

lemma runs_bound:
  assumes "runs W (Fin r) items s"
  shows "(ctl s \<noteq> Awaiting \<longrightarrow>
            length (executing s) = 0 \<or> rat_of_nat (length (executing s)) < r)
         \<and> (length (executing s) \<le> 1 \<or> rat_of_nat (length (executing s)) < r + 1)"
  using assms
proof (induction rule: runs.induct)
  case start
  show ?case by (simp add: init_def)
next
  case (further s s')
  have inv: "sched_inv W items s" using further.hyps(1) by (rule runs_inv)
  from further.hyps(2) show ?case
  proof cases
    case (launch item rest)
    then have quiet: "length (executing s) = 0 \<or> rat_of_nat (length (executing s)) < r"
      using further.IH by auto
    show ?thesis
    proof (cases "js_ge (Fin (rat_of_nat (length (executing s) + 1))) (Fin r)")
      case True
      with launch quiet show ?thesis by auto
    next
      case False
      with launch quiet show ?thesis by auto
    qed
  next
    case finish
    with further.IH show ?thesis by auto
  next
    case (settle i out)
    have less: "length (removeAll i (executing s)) < length (executing s)"
      using inv settle(3,4) by (rule settle_shrinks)
    have "length (removeAll i (executing s)) = 0
          \<or> rat_of_nat (length (removeAll i (executing s))) < r"
    proof (cases "length (executing s) \<le> 1")
      case True
      with less have "length (removeAll i (executing s)) = 0" by linarith
      then show ?thesis by (rule disjI1)
    next
      case False
      then have "rat_of_nat (length (executing s)) < r + 1"
        using further.IH by simp
      moreover have "Suc (length (removeAll i (executing s))) \<le> length (executing s)"
        using less by simp
      then have "rat_of_nat (Suc (length (removeAll i (executing s))))
                   \<le> rat_of_nat (length (executing s))"
        by (simp only: of_nat_le_iff)
      then have "rat_of_nat (length (removeAll i (executing s))) + 1
                   \<le> rat_of_nat (length (executing s))"
        by simp
      ultimately show ?thesis by simp
    qed
    with settle show ?thesis by auto
  qed
qed

lemma runs_output:
  assumes "runs W c items s" and "returned s = Fulfilled out"
  shows "list_all2 (\<lambda>x r. \<exists>w. W x w \<and> r = wrap w) items out"
proof -
  have inv: "sched_inv W items s" using assms(1) by (rule runs_inv)
  have fin: "ctl s = Done" and all: "promise_all (results s) = Fulfilled out"
    using assms(2) by (auto simp: returned_def split: if_splits)
  have res: "results s = map Fulfilled out"
    using all by (rule promise_all_Fulfilled)
  have items: "started s = items"
    using inv fin by (auto simp: sched_inv_def)
  have len: "length out = length items"
    using inv res items by (auto simp: sched_inv_def)
  have "\<exists>w. W (items ! i) w \<and> out ! i = wrap w" if "i < length items" for i
  proof -
    have "i < length (results s)" using that len res by simp
    moreover have "results s ! i = Fulfilled (out ! i)" using that len res by simp
    moreover have "\<forall>j < length (results s).
        results s ! j = Pending
        \<or> (\<exists>w. W (started s ! j) w \<and> results s ! j = Fulfilled (wrap w))"
      using inv by (simp add: sched_inv_def)
    ultimately have "\<exists>w. W (started s ! i) w \<and> Fulfilled (out ! i) = Fulfilled (wrap w)"
      by fastforce
    then show ?thesis using items by simp
  qed
  with len show ?thesis
    by (simp add: list_all2_conv_all_nth)
qed

lemma runs_not_rejected:
  assumes "runs W c items s"
  shows "returned s \<noteq> Rejected e"
proof
  assume "returned s = Rejected e"
  then have "promise_all (results s) = Rejected e"
    by (auto simp: returned_def split: if_splits)
  then have "Rejected e \<in> set (results s)"
    by (rule promise_all_Rejected)
  then obtain i where "i < length (results s)" "results s ! i = Rejected e"
    by (auto simp: in_set_conv_nth)
  moreover have "sched_inv W items s" using assms by (rule runs_inv)
  ultimately show False
    by (auto simp: sched_inv_def)
qed

lemma runs_progress:
  assumes "runs W c items s" and "\<forall>x\<in>set items. \<exists>w. W x w"
      and "\<forall>out. returned s \<noteq> Fulfilled out"
  shows "\<exists>s'. step W c s s'"
proof -
  have inv: "sched_inv W items s" using assms(1) by (rule runs_inv)
  have can_settle: "\<exists>s'. step W c s s'"
    if "i < length (results s)" "results s ! i = Pending" "ctl s \<noteq> Running" for i
  proof -
    have "started s ! i \<in> set items"
      using inv that(1) by (auto simp: sched_inv_def)
    then obtain w where "W (started s ! i) w" using assms(2) by blast
    with that show ?thesis by (blast intro: step.settle)
  qed
  have can_go: "\<exists>s'. step W c s s'" if "ctl s = Running \<or> ctl s = Woken"
  proof (cases "todo s")
    case Nil
    with that show ?thesis by (blast intro: step.finish)
  next
    case (Cons item rest)
    with that show ?thesis by (blast intro: step.launch)
  qed
  show ?thesis
  proof (cases "ctl s")
    case Running
    then show ?thesis using can_go by simp
  next
    case Woken
    then show ?thesis using can_go by simp
  next
    case Awaiting
    then obtain i where "i \<in> set (executing s)"
      using inv by (cases "executing s") (auto simp: sched_inv_def)
    then have "i < length (results s)" "results s ! i = Pending"
      using inv by (auto simp: sched_inv_def)
    with Awaiting show ?thesis using can_settle by simp
  next
    case Done
    then have "promise_all (results s) \<noteq> Fulfilled out" for out
      using assms(3) by (simp add: returned_def)
    moreover have "promise_all (results s) \<noteq> Rejected e" for e
      using runs_not_rejected [OF assms(1), of e] Done by (simp add: returned_def)
    ultimately have "promise_all (results s) = Pending"
      by (cases "promise_all (results s)") auto
    then have "Pending \<in> set (results s)" by (rule promise_all_Pending)
    then obtain i where "i < length (results s)" "results s ! i = Pending"
      by (auto simp: in_set_conv_nth)
    with Done show ?thesis using can_settle by simp
  qed
qed

lemma two_launches:
  assumes "\<not> js_ge (Fin 1) c" and "js_ge (Fin 2) c"
  shows "runs W c [a, b]
           \<lparr>todo = [], started = [a, b], results = [Pending, Pending],
            executing = [0, 1], ctl = Awaiting\<rparr>"
proof -
  let ?s1 = "\<lparr>todo = [b], started = [a], results = [Pending], executing = [0],
              ctl = Running\<rparr> :: ('a, 'b) sched"
  have "step W c (init [a, b]) ?s1"
    using step.launch [of "init [a, b]" a "[b]" W c] assms(1) by (simp add: init_def)
  then have one: "runs W c [a, b] ?s1"
    using runs.start runs.further by blast
  have "step W c ?s1
          \<lparr>todo = [], started = [a, b], results = [Pending, Pending],
           executing = [0, 1], ctl = Awaiting\<rparr>"
    using step.launch [of ?s1 b "[]" W c] assms(2) by simp
  with one show ?thesis
    using runs.further by blast
qed

section \<open>The scheduler: workers in flight\<close>

text \<open>
  C5, as the claim states it, fails for a limit that is not a whole number: the handler
  clamps \<open>concurrency\<close> into 1..50 without rounding it, and with the limit 1.5 the
  loop starts a second worker before it suspends, so two workers are in flight.
\<close>

theorem in_flight_above_limit_counterexample:
  "runs (probe_outcome env_local (JStr ''127.0.0.1'') (Fin 2000)) (Fin (3 / 2)) [80, 81]
     \<lparr>todo = [], started = [80, 81], results = [Pending, Pending],
      executing = [0, 1], ctl = Awaiting\<rparr>
   \<and> in_flight \<lparr>todo = [], started = [80, 81 :: int],
                results = [Pending, Pending :: probe_result item_result promise],
                executing = [0, 1], ctl = Awaiting\<rparr> = 2
   \<and> \<not> (2 \<le> (3 / 2 :: rat))"
proof -
  have "runs (probe_outcome env_local (JStr ''127.0.0.1'') (Fin 2000)) (Fin (3 / 2)) [80, 81]
     \<lparr>todo = [], started = [80, 81], results = [Pending, Pending],
      executing = [0, 1], ctl = Awaiting\<rparr>"
    by (rule two_launches) simp_all
  then show ?thesis
    by (simp add: in_flight_def)
qed

text \<open>
  C5, amended.  For a finite limit, in every state a call of \<open>mapWithConcurrency\<close> can
  reach, the number of workers that were started and have not settled is at most 1 or
  less than the limit plus 1; when the limit is a whole number \<open>k\<close> of at least 1, it is
  at most \<open>k\<close>.
\<close>

theorem in_flight_bound:
  assumes "runs W (Fin limit) items s"
  shows "(in_flight s \<le> 1 \<or> rat_of_nat (in_flight s) < limit + 1)
         \<and> (\<forall>k. 1 \<le> k \<and> limit = rat_of_nat k \<longrightarrow> in_flight s \<le> k)"
proof -
  have eq: "in_flight s = length (executing s)"
    using assms runs_inv inv_in_flight by blast
  have bound: "in_flight s \<le> 1 \<or> rat_of_nat (in_flight s) < limit + 1"
    using runs_bound [OF assms] eq by simp
  have "in_flight s \<le> k" if "1 \<le> k" "limit = rat_of_nat k" for k
  proof -
    from bound show ?thesis
    proof
      assume "in_flight s \<le> 1"
      with that(1) show ?thesis by simp
    next
      assume "rat_of_nat (in_flight s) < limit + 1"
      then have "rat_of_nat (in_flight s) < rat_of_nat (Suc k)"
        using that(2) by simp
      then have "in_flight s < Suc k" by (simp only: of_nat_less_iff)
      then show ?thesis by simp
    qed
  qed
  with bound show ?thesis by blast
qed

theorem in_flight_bound_witness:
  "runs (probe_outcome env_local (JStr ''127.0.0.1'') (Fin 2000)) (Fin 2) [80, 81]
     \<lparr>todo = [], started = [80, 81], results = [Pending, Pending],
      executing = [0, 1], ctl = Awaiting\<rparr>
   \<and> (1::nat) \<le> 2 \<and> (2::rat) = rat_of_nat 2
   \<and> in_flight \<lparr>todo = [], started = [80, 81 :: int],
                results = [Pending, Pending :: probe_result item_result promise],
                executing = [0, 1], ctl = Awaiting\<rparr> \<le> 2"
proof -
  have r: "runs (probe_outcome env_local (JStr ''127.0.0.1'') (Fin 2000)) (Fin 2) [80, 81]
     \<lparr>todo = [], started = [80, 81], results = [Pending, Pending],
      executing = [0, 1], ctl = Awaiting\<rparr>"
    by (rule two_launches) simp_all
  show ?thesis
    using in_flight_bound [OF r] r by simp
qed

text \<open>
  The limit the range scan hands to the scheduler is a finite number between 1 and 50,
  so no scan has more than 50 probes in flight.
\<close>

lemma scan_limit_bounds:
  "\<exists>r. math_max (Fin 1) (math_min MAX_CONCURRENCY
           (num_or c (math_min MAX_CONCURRENCY (Fin 20)))) = Fin r \<and> 1 \<le> r \<and> r \<le> 50"
  by (cases c) (auto simp: MAX_CONCURRENCY_def num_or_def)

lemma scan_in_flight:
  assumes "runs W (math_max (Fin 1) (math_min MAX_CONCURRENCY
                     (num_or c (math_min MAX_CONCURRENCY (Fin 20))))) items s"
  shows "in_flight s \<le> 50"
proof -
  obtain r where r: "math_max (Fin 1) (math_min MAX_CONCURRENCY
           (num_or c (math_min MAX_CONCURRENCY (Fin 20)))) = Fin r" "r \<le> 50"
    using scan_limit_bounds by blast
  have run: "runs W (Fin r) items s"
    using assms r(1) by simp
  have eq: "in_flight s = length (executing s)"
    using run runs_inv inv_in_flight by blast
  have "in_flight s \<le> 1 \<or> rat_of_nat (in_flight s) < r + 1"
    using runs_bound [OF run] eq by simp
  then show ?thesis
  proof
    assume "in_flight s \<le> 1"
    then show ?thesis by simp
  next
    assume "rat_of_nat (in_flight s) < r + 1"
    with r(2) have "rat_of_nat (in_flight s) < rat_of_nat 51" by simp
    then have "in_flight s < 51" by (simp only: of_nat_less_iff)
    then show ?thesis by simp
  qed
qed

section \<open>The authorizer on IP literals and on host names\<close>

text \<open>
  C3, as the claim states it, fails: with the allowlist entry \<open>127.0.0.1:80\<close>, an
  exact-hostname rule equal to the original host string \<open>127.0.0.1:80\<close>, the claim
  makes the host authorized; the server compares the rule with the stripped string
  \<open>127.0.0.1\<close> and answers false.
\<close>

theorem ip_host_counterexample:
  "''127.0.0.1:80'' \<noteq> []
   \<and> ip_isValid ipv4_lib (strip_port ''127.0.0.1:80'')
   \<and> spec_ip_authorized ipv4_lib [''127.0.0.1:80''] ''127.0.0.1:80''
   \<and> hostAllowedAsync ipv4_lib [''127.0.0.1:80''] dns_local (JStr ''127.0.0.1:80'')
       = (Inr False, [])"
  by code_simp

lemma ip_rule_allows_iff:
  assumes "ip_isValid lb ip"
  shows "ip_rule_allows lb ip rule
           \<longleftrightarrow> cidr_rule_matches lb rule ip \<or> ip_rule_matches lb rule ip"
  using assms
  by (auto simp: ip_rule_allows_def cidr_rule_matches_def ip_rule_matches_def)

text \<open>
  C3, amended.  For every non-empty host string that is a valid IP literal after its
  trailing port suffix is stripped, \<open>hostAllowedAsync\<close> returns true if and only if a
  CIDR rule contains the stripped IP or an exact-IP rule equals it; an exact-hostname
  rule is compared with the stripped string and never matches it; no name is looked up.
\<close>

theorem ip_host_authorized:
  assumes "h \<noteq> []" and "ip_isValid lb (strip_port h)"
  shows "hostAllowedAsync lb rules dns (JStr h) =
           (Inr (\<exists>rule\<in>set rules. cidr_rule_matches lb rule (strip_port h)
                                    \<or> ip_rule_matches lb rule (strip_port h)), [])
         \<and> (\<forall>rule\<in>set rules. \<not> hostname_rule_matches lb rule (strip_port h))"
  using assms
  by (auto simp: hostAllowedAsync_def Let_def list_ex_iff ip_rule_allows_iff
                 hostname_rule_matches_def)

theorem ip_host_authorized_witness:
  "''10.1.2.3:99'' \<noteq> []
   \<and> ip_isValid ipv4_lib (strip_port ''10.1.2.3:99'')
   \<and> hostAllowedAsync ipv4_lib DEFAULT_ALLOWLIST dns_local (JStr ''10.1.2.3:99'')
       = (Inr True, [])"
proof -
  have h1: "''10.1.2.3:99'' \<noteq> []" by simp
  have h2: "ip_isValid ipv4_lib (strip_port ''10.1.2.3:99'')" by code_simp
  have ev: "(\<exists>rule\<in>set DEFAULT_ALLOWLIST.
               cidr_rule_matches ipv4_lib rule (strip_port ''10.1.2.3:99'')
               \<or> ip_rule_matches ipv4_lib rule (strip_port ''10.1.2.3:99'')) = True"
    by code_simp
  show ?thesis
    using ip_host_authorized [OF h1 h2, of DEFAULT_ALLOWLIST dns_local] h2
    by (simp only: ev) simp
qed

text \<open>
  C4, as the claim states it, fails: for the host \<open>localhost:8080\<close> and the only rule
  \<open>localhost\<close>, no rule matches the resolved address and no exact-hostname rule equals
  the original string, yet the server authorizes the host, because it compares the rule
  with the stripped string \<open>localhost\<close>.
\<close>

theorem name_host_counterexample:
  "''localhost:8080'' \<noteq> []
   \<and> \<not> ip_isValid ipv4_lib (strip_port ''localhost:8080'')
   \<and> dns_local (strip_port ''localhost:8080'') = Some [''127.0.0.1'']
   \<and> \<not> spec_name_authorized ipv4_lib [''localhost''] ''localhost:8080'' [''127.0.0.1'']
   \<and> hostAllowedAsync ipv4_lib [''localhost''] dns_local (JStr ''localhost:8080'')
       = (Inr True, [''localhost''])"
  by code_simp

lemma dns_rule_allows_iff:
  "dns_rule_allows lb trimmed addr rule
     \<longleftrightarrow> cidr_rule_matches lb rule addr \<or> ip_rule_matches lb rule addr
          \<or> hostname_rule_matches lb rule trimmed"
  by (auto simp: dns_rule_allows_def cidr_rule_matches_def ip_rule_matches_def
                 hostname_rule_matches_def)

text \<open>
  C4, amended.  For every non-empty host string that is not an IP literal after its
  port suffix is stripped, \<open>hostAllowedAsync\<close> never throws and looks the stripped name
  up once.  If the lookup fails it returns false.  If the lookup succeeds it returns
  true if and only if some resolved address matches a CIDR or exact-IP rule, or at
  least one address was resolved and an exact-hostname rule equals the stripped name.
\<close>

theorem name_host_authorized:
  assumes "h \<noteq> []" and "\<not> ip_isValid lb (strip_port h)"
  shows "hostAllowedAsync lb rules dns (JStr h) =
           (Inr (case dns (strip_port h) of
                   None \<Rightarrow> False
                 | Some addresses \<Rightarrow>
                     (\<exists>addr\<in>set addresses. \<exists>rule\<in>set rules.
                         cidr_rule_matches lb rule addr \<or> ip_rule_matches lb rule addr)
                     \<or> (addresses \<noteq> []
                         \<and> (\<exists>rule\<in>set rules. hostname_rule_matches lb rule (strip_port h)))),
            [strip_port h])"
proof (cases "dns (strip_port h)")
  case None
  with assms show ?thesis
    by (simp add: hostAllowedAsync_def Let_def)
next
  case (Some addresses)
  have "list_ex (\<lambda>addr. list_ex (dns_rule_allows lb (strip_port h) addr) rules) addresses
        \<longleftrightarrow> (\<exists>addr\<in>set addresses. \<exists>rule\<in>set rules.
                 cidr_rule_matches lb rule addr \<or> ip_rule_matches lb rule addr)
             \<or> (addresses \<noteq> []
                 \<and> (\<exists>rule\<in>set rules. hostname_rule_matches lb rule (strip_port h)))"
    by (cases addresses) (auto simp: list_ex_iff dns_rule_allows_iff)
  with assms Some show ?thesis
    by (simp add: hostAllowedAsync_def Let_def)
qed

theorem name_host_authorized_witness:
  "''localhost:8080'' \<noteq> []
   \<and> \<not> ip_isValid ipv4_lib (strip_port ''localhost:8080'')
   \<and> hostAllowedAsync ipv4_lib DEFAULT_ALLOWLIST dns_local (JStr ''localhost:8080'')
       = (Inr True, [''localhost''])
   \<and> ''example.org'' \<noteq> []
   \<and> \<not> ip_isValid ipv4_lib (strip_port ''example.org'')
   \<and> hostAllowedAsync ipv4_lib DEFAULT_ALLOWLIST dns_local (JStr ''example.org'')
       = (Inr False, [''example.org''])"
proof -
  have h1: "''localhost:8080'' \<noteq> []" by simp
  have h2: "\<not> ip_isValid ipv4_lib (strip_port ''localhost:8080'')" by code_simp
  have s1: "strip_port ''localhost:8080'' = ''localhost''" by code_simp
  have d1: "dns_local ''localhost'' = Some [''127.0.0.1'']" by code_simp
  have ev: "((\<exists>addr\<in>set [''127.0.0.1'']. \<exists>rule\<in>set DEFAULT_ALLOWLIST.
               cidr_rule_matches ipv4_lib rule addr \<or> ip_rule_matches ipv4_lib rule addr)
             \<or> ([''127.0.0.1''] \<noteq> []
                 \<and> (\<exists>rule\<in>set DEFAULT_ALLOWLIST.
                       hostname_rule_matches ipv4_lib rule ''localhost''))) = True"
    by code_simp
  have g1: "''example.org'' \<noteq> []" by simp
  have g2: "\<not> ip_isValid ipv4_lib (strip_port ''example.org'')" by code_simp
  have s2: "strip_port ''example.org'' = ''example.org''" by code_simp
  have d2: "dns_local ''example.org'' = None" by code_simp
  have a: "hostAllowedAsync ipv4_lib DEFAULT_ALLOWLIST dns_local (JStr ''localhost:8080'')
       = (Inr True, [''localhost''])"
    using name_host_authorized [OF h1 h2, of DEFAULT_ALLOWLIST dns_local]
    by (simp only: s1 d1 option.case ev)
  have b: "hostAllowedAsync ipv4_lib DEFAULT_ALLOWLIST dns_local (JStr ''example.org'')
       = (Inr False, [''example.org''])"
    using name_host_authorized [OF g1 g2, of DEFAULT_ALLOWLIST dns_local]
    by (simp only: s2 d2 option.case)
  from h1 h2 a g1 g2 b show ?thesis by blast
qed

section \<open>The scheduler: one failing worker\<close>

lemma flaky_run:
  "runs flaky (Fin 1) [1, 2]
     \<lparr>todo = [], started = [1, 2],
      results = [Fulfilled (ErrorObj ''Error: boom''), Fulfilled (Value 20)],
      executing = [], ctl = Done\<rparr>"
proof -
  let ?s1 = "\<lparr>todo = [2], started = [1], results = [Pending], executing = [0],
              ctl = Awaiting\<rparr> :: (int, int) sched"
  let ?s2 = "\<lparr>todo = [2], started = [1], results = [Fulfilled (ErrorObj ''Error: boom'')],
              executing = [], ctl = Woken\<rparr> :: (int, int) sched"
  let ?s3 = "\<lparr>todo = [], started = [1, 2],
              results = [Fulfilled (ErrorObj ''Error: boom''), Pending],
              executing = [1], ctl = Awaiting\<rparr> :: (int, int) sched"
  let ?s4 = "\<lparr>todo = [], started = [1, 2],
              results = [Fulfilled (ErrorObj ''Error: boom''), Fulfilled (Value 20)],
              executing = [], ctl = Woken\<rparr> :: (int, int) sched"
  have "step flaky (Fin 1) (init [1, 2]) ?s1"
    using step.launch [of "init [1, 2]" 1 "[2]" flaky "Fin 1"] by (simp add: init_def)
  then have r1: "runs flaky (Fin 1) [1, 2] ?s1"
    using runs.start runs.further by blast
  have "step flaky (Fin 1) ?s1 ?s2"
    using step.settle [of ?s1 0 flaky "Throws ''Error: boom''" "Fin 1"]
    by (simp add: flaky_def wrapper_def)
  with r1 have r2: "runs flaky (Fin 1) [1, 2] ?s2"
    using runs.further by blast
  have "step flaky (Fin 1) ?s2 ?s3"
    using step.launch [of ?s2 2 "[]" flaky "Fin 1"] by simp
  with r2 have r3: "runs flaky (Fin 1) [1, 2] ?s3"
    using runs.further by blast
  have "step flaky (Fin 1) ?s3 ?s4"
    using step.settle [of ?s3 1 flaky "Returns 20" "Fin 1"]
    by (simp add: flaky_def wrapper_def)
  with r3 have r4: "runs flaky (Fin 1) [1, 2] ?s4"
    using runs.further by blast
  have "step flaky (Fin 1) ?s4
          \<lparr>todo = [], started = [1, 2],
           results = [Fulfilled (ErrorObj ''Error: boom''), Fulfilled (Value 20)],
           executing = [], ctl = Done\<rparr>"
    using step.finish [of ?s4 flaky "Fin 1"] by simp
  with r4 show ?thesis
    using runs.further by blast
qed

text \<open>
  C8.  In every state a call of \<open>mapWithConcurrency\<close> can reach: the returned promise is
  not rejected; when it is fulfilled, the output has one entry for each item, in the
  order of the items, which is the value its worker returned or the object
  \<open>{error: String(e)}\<close> for the \<open>e\<close> its worker threw; and as long as it is not fulfilled
  (and every worker settles), a step is possible, and every step leaves less to do.
  So one failing item neither rejects the batch nor keeps another item from running.
\<close>

theorem worker_failure_contained:
  assumes "runs W c items s"
  shows "(\<forall>e. returned s \<noteq> Rejected e)
         \<and> (\<forall>out. returned s = Fulfilled out \<longrightarrow>
               list_all2 (\<lambda>x r. (\<exists>v. W x (Returns v) \<and> r = Value v)
                                \<or> (\<exists>e. W x (Throws e) \<and> r = ErrorObj e)) items out)
         \<and> ((\<forall>x\<in>set items. \<exists>w. W x w) \<and> (\<forall>out. returned s \<noteq> Fulfilled out) \<longrightarrow>
               (\<exists>s'. step W c s s' \<and> remaining s' < remaining s))"
proof (intro conjI allI impI)
  fix e
  show "returned s \<noteq> Rejected e"
    using assms by (rule runs_not_rejected)
next
  fix out
  assume "returned s = Fulfilled out"
  with assms have "list_all2 (\<lambda>x r. \<exists>w. W x w \<and> r = wrap w) items out"
    by (rule runs_output)
  moreover have "(\<exists>v. W x (Returns v) \<and> r = Value v) \<or> (\<exists>e. W x (Throws e) \<and> r = ErrorObj e)"
    if "\<exists>w. W x w \<and> r = wrap w" for x r
  proof -
    from that obtain w where w: "W x w" "r = wrap w" by blast
    then show ?thesis by (cases w) auto
  qed
  ultimately show "list_all2 (\<lambda>x r. (\<exists>v. W x (Returns v) \<and> r = Value v)
                                \<or> (\<exists>e. W x (Throws e) \<and> r = ErrorObj e)) items out"
    by (rule list_all2_mono)
next
  assume "(\<forall>x\<in>set items. \<exists>w. W x w) \<and> (\<forall>out. returned s \<noteq> Fulfilled out)"
  with assms obtain s' where "step W c s s'"
    using runs_progress by blast
  then show "\<exists>s'. step W c s s' \<and> remaining s' < remaining s"
    using step_decreases by blast
qed

theorem worker_failure_contained_witness:
  "runs flaky (Fin 1) [1, 2]
     \<lparr>todo = [], started = [1, 2],
      results = [Fulfilled (ErrorObj ''Error: boom''), Fulfilled (Value 20)],
      executing = [], ctl = Done\<rparr>
   \<and> returned \<lparr>todo = [], started = [1, 2 :: int],
               results = [Fulfilled (ErrorObj ''Error: boom''), Fulfilled (Value (20 :: int))],
               executing = [], ctl = Done\<rparr>
       = Fulfilled [ErrorObj ''Error: boom'', Value 20]
   \<and> flaky 1 (Throws ''Error: boom'') \<and> flaky 2 (Returns 20)
   \<and> list_all2 (\<lambda>x r. (\<exists>v. flaky x (Returns v) \<and> r = Value v)
                      \<or> (\<exists>e. flaky x (Throws e) \<and> r = ErrorObj e))
        [1, 2] [ErrorObj ''Error: boom'', Value 20]
   \<and> runs flaky (Fin 1) [1, 2] (init [1, 2])
   \<and> returned (init [1, 2 :: int] :: (int, int) sched) = Pending
   \<and> (\<exists>s'. step flaky (Fin 1) (init [1, 2]) s' \<and> remaining s' < remaining (init [1, 2 :: int] :: (int, int) sched))"
proof -
  let ?fin = "\<lparr>todo = [], started = [1, 2 :: int],
               results = [Fulfilled (ErrorObj ''Error: boom''), Fulfilled (Value (20 :: int))],
               executing = [], ctl = Done\<rparr>"
  have ret: "returned ?fin = Fulfilled [ErrorObj ''Error: boom'', Value 20]"
    by (simp add: returned_def)
  have out: "list_all2 (\<lambda>x r. (\<exists>v. flaky x (Returns v) \<and> r = Value v)
                      \<or> (\<exists>e. flaky x (Throws e) \<and> r = ErrorObj e))
        [1, 2] [ErrorObj ''Error: boom'', Value 20]"
    using worker_failure_contained [OF flaky_run] ret by blast
  have st: "runs flaky (Fin 1) [1, 2] (init [1, 2])"
    by (rule runs.start)
  have pend: "returned (init [1, 2 :: int] :: (int, int) sched) = Pending"
    by (simp add: returned_def init_def)
  have all: "\<forall>x\<in>set [1, 2 :: int]. \<exists>w. flaky x w"
    by (simp add: flaky_def)
  have go: "\<exists>s'. step flaky (Fin 1) (init [1, 2]) s' \<and> remaining s' < remaining (init [1, 2 :: int] :: (int, int) sched)"
    using worker_failure_contained [OF st] all pend by simp
  have "flaky 1 (Throws ''Error: boom'')" "flaky 2 (Returns 20)"
    by (simp_all add: flaky_def)
  with flaky_run ret out st pend go show ?thesis by blast
qed

section \<open>The scheduler run to its end\<close>






section \<open>The range scan: ports and results\<close>








text \<open>
  With the timeout -1 every probe of the scan rejects; the wrapper of the scheduler
  catches that, and the scan is answered with 200 and one error entry for each port.
\<close>

lemma scan_negative_timeout:
  "tcp_scan_range env_local
     \<lparr>b_host = JStr ''127.0.0.1'', b_start = JNum (Fin 80), b_end = JNum (Fin 81),
      b_timeout = Fin (- 1), b_concurrency = NaN\<rparr>
     = (Reply 200
          (ScanOk (JStr ''127.0.0.1'') 2
             [ErrorObj ''RangeError [ERR_OUT_OF_RANGE]: msecs is out of range'',
              ErrorObj ''RangeError [ERR_OUT_OF_RANGE]: msecs is out of range'']),
        [Authorize (JStr ''127.0.0.1''),
         Scan (JStr ''127.0.0.1'') [80, 81] (Fin (- 1)) (Fin 20)])"
  by code_simp

end
